theory Spec2Isabelle
  imports Main "HOL-Library.Word"
begin

section \<open>Error values of the eros package\<close>

text \<open>
  The package works on Go's \<^verbatim>\<open>error\<close> interface. An interface value is \<^verbatim>\<open>nil\<close> or a
  pair of a dynamic type and a value of that type. The dynamic types that matter are
  \<^verbatim>\<open>*Error\<close> (what \<^verbatim>\<open>New\<close>, \<^verbatim>\<open>Wrap\<close> and \<^verbatim>\<open>CastOrWrap\<close> return), \<^verbatim>\<open>Error\<close> (the struct held
  by value, what \<^verbatim>\<open>dereference\<close> produces) and the error types of other packages.

  A foreign error type is described by its name, by whether \<^verbatim>\<open>reflect\<close> reports it
  comparable, and by the methods it has besides \<^verbatim>\<open>Error() string\<close>. A method is
  identified by its name, which stands for the name with the signature the package
  asserts: \<^verbatim>\<open>Unwrap() error\<close>, \<^verbatim>\<open>Is(error) bool\<close>, \<^verbatim>\<open>As(interface{}) bool\<close>.
\<close>

datatype ftype = FType (tname: string) (tcomparable: bool) (tmethods: "string list")

text \<open>
  The types a target slot of \<^verbatim>\<open>As\<close> can be declared with: the struct \<^verbatim>\<open>Error\<close>, the
  pointer \<^verbatim>\<open>*Error\<close>, a foreign error type, an interface type (given by its method
  set) and \<^verbatim>\<open>TyOther\<close>, any type that is no interface and does not implement \<^verbatim>\<open>error\<close>.
\<close>

datatype gotype = TyError | TyPtrError | TyForeign ftype | TyIface "string list" | TyOther

text \<open>
  \<^verbatim>\<open>type Error struct { msg string; cause error; next *Error; count int }\<close>

  Pointers to \<^verbatim>\<open>Error\<close> are addresses into a store (a list of structs, the address is
  the index); \<^verbatim>\<open>None\<close> is the nil pointer. \<^verbatim>\<open>int\<close> is the 64-bit integer, so
  \<open>count + 1\<close> wraps as the machine addition does. The field \<^verbatim>\<open>next\<close> is written
  \<open>next'\<close>, since \<open>next\<close> is a word of the proof language.

  A foreign error value carries its type, the datum \<^verbatim>\<open>==\<close> compares (the address for a
  pointer type), what the pointer refers to when it is a non-nil pointer whose element
  implements \<^verbatim>\<open>error\<close> (\<open>felem\<close>), and the behaviour of the methods its type may have:
  the result of \<^verbatim>\<open>Unwrap()\<close>, the targets its \<^verbatim>\<open>Is\<close> accepts, and the slot types its
  \<^verbatim>\<open>As\<close> accepts with the value it stores there.
\<close>

datatype error =
    ENil
  | EPtr "nat option"
  | EVal Error
  | EForeign foreign
and Error = MkError (msg: string) (cause: error) (next': "nat option") (count: "64 word")
and foreign = Foreign (ftype: ftype) (fdata: nat) (felem: "foreign option")
    (funwrap: error) (fis: "error list") (fas: "(gotype \<times> error) list")

type_synonym heap = "Error list"

text \<open>The value a \<^verbatim>\<open>panic\<close> carries: an error, a string, or any other value.\<close>

datatype pval = PErr error | PStr string | POther nat

text \<open>The error of the Go runtime that a failed operation panics with.\<close>

definition runtime_error :: "string \<Rightarrow> pval" where
  "runtime_error m = PErr (EForeign (Foreign (FType m True []) 0 None ENil [] []))"

fun set_next :: "nat option \<Rightarrow> Error \<Rightarrow> Error" where
  "set_next n' (MkError m c n k) = MkError m c n' k"

fun set_count :: "64 word \<Rightarrow> Error \<Rightarrow> Error" where
  "set_count k' (MkError m c n k) = MkError m c n k'"

subsection \<open>Go's comparison of interface values\<close>

text \<open>
  \<^verbatim>\<open>err == target\<close> on two interface values: equal when both are nil, or when the
  dynamic types are identical and the values are equal. Pointers compare by address.
  Structs compare field by field in source order, stopping at the first difference.
  Comparing two values of one uncomparable dynamic type is a run-time panic (\<open>None\<close>).
\<close>

fun go_eq :: "error \<Rightarrow> error \<Rightarrow> bool option"
  and struct_eq :: "Error \<Rightarrow> Error \<Rightarrow> bool option" where
  "go_eq ENil ENil = Some True"
| "go_eq (EPtr p) (EPtr q) = Some (p = q)"
| "go_eq (EVal s) (EVal t) = struct_eq s t"
| "go_eq (EForeign f) (EForeign g) =
     (if ftype f \<noteq> ftype g then Some False
      else if \<not> tcomparable (ftype f) then None
      else Some (f = g))"
| "go_eq _ _ = Some False"
| "struct_eq (MkError m c n k) (MkError m' c' n' k') =
     (if m \<noteq> m' then Some False
      else (case go_eq c c' of
              None \<Rightarrow> None
            | Some False \<Rightarrow> Some False
            | Some True \<Rightarrow> Some (n = n' \<and> k = k')))"

text \<open>\<^verbatim>\<open>reflect.TypeOf(target).Comparable()\<close> for a non-nil target.\<close>

fun Comparable :: "error \<Rightarrow> bool" where
  "Comparable (EForeign f) = tcomparable (ftype f)"
| "Comparable _ = True"

subsection \<open>Construction\<close>

text \<open>
  \<^verbatim>\<open>func New(msg string) *Error { return &Error{msg, nil, nil, 0} }\<close>
  \<^verbatim>\<open>func Wrap(err error, msg string) *Error { return &Error{msg, err, nil, 1} }\<close>
  Both allocate: the result is the new address and the extended store.
\<close>

definition New :: "heap \<Rightarrow> string \<Rightarrow> nat \<times> heap" where
  "New h m = (length h, h @ [MkError m ENil None 0])"

definition Wrap :: "heap \<Rightarrow> error \<Rightarrow> string \<Rightarrow> nat \<times> heap" where
  "Wrap h err m = (length h, h @ [MkError m err None 1])"

text \<open>\<^verbatim>\<open>func (s Error) Count() int { return s.count }\<close>\<close>

definition Count :: "Error \<Rightarrow> 64 word" where
  "Count s = count s"

subsection \<open>Unwrap and dereference\<close>

text \<open>
  \<^verbatim>\<open>Unwrap(err)\<close> calls the value's \<^verbatim>\<open>Unwrap\<close> method when its dynamic type has one.
  The method is declared on \<^verbatim>\<open>*Error\<close> only, so an \<^verbatim>\<open>Error\<close> held by value has none.
  \<^verbatim>\<open>(*Error).Unwrap\<close> returns \<^verbatim>\<open>next\<close> when it is not nil, else \<^verbatim>\<open>cause\<close>; on a nil
  receiver it returns nil.
\<close>

fun Unwrap :: "heap \<Rightarrow> error \<Rightarrow> error" where
  "Unwrap h ENil = ENil"
| "Unwrap h (EPtr None) = ENil"
| "Unwrap h (EPtr (Some a)) =
     (case next' (h ! a) of Some n \<Rightarrow> EPtr (Some n) | None \<Rightarrow> cause (h ! a))"
| "Unwrap h (EVal s) = ENil"
| "Unwrap h (EForeign f) =
     (if ''Unwrap'' \<in> set (tmethods (ftype f)) then funwrap f else ENil)"

text \<open>
  \<^verbatim>\<open>dereference\<close>: a non-nil pointer whose element implements \<^verbatim>\<open>error\<close> is replaced by
  the element; everything else is returned as it is.
\<close>

fun dereference :: "heap \<Rightarrow> error \<Rightarrow> error" where
  "dereference h (EPtr (Some a)) = EVal (h ! a)"
| "dereference h (EForeign f) = (case felem f of Some g \<Rightarrow> EForeign g | None \<Rightarrow> EForeign f)"
| "dereference h err = err"

text \<open>
  \<^verbatim>\<open>CastOrWrap\<close>: when the dereferenced value is an \<^verbatim>\<open>Error\<close>, the address of a fresh
  copy of it; otherwise \<^verbatim>\<open>Wrap(err, "cast to eros.Error")\<close>.
\<close>

definition CastOrWrap :: "heap \<Rightarrow> error \<Rightarrow> nat \<times> heap" where
  "CastOrWrap h err =
     (case dereference h err of
        EVal e \<Rightarrow> (length h, h @ [e])
      | _ \<Rightarrow> Wrap h err ''cast to eros.Error'')"

subsection \<open>Is\<close>

text \<open>The \<^verbatim>\<open>Is(error) bool\<close> method of the current node, when its type has one.\<close>

definition custom_Is :: "error \<Rightarrow> error \<Rightarrow> bool" where
  "custom_Is err target =
     (case err of
        EForeign f \<Rightarrow> ''Is'' \<in> set (tmethods (ftype f)) \<and> target \<in> set (fis f)
      | _ \<Rightarrow> False)"

text \<open>
  The \<^verbatim>\<open>for\<close> loop of \<^verbatim>\<open>Is\<close>. The chain it walks lives in the store and may be cyclic,
  so the loop may not return: \<open>None\<close>. \<open>Some (Inl p)\<close> is a panic, \<open>Some (Inr b)\<close> the
  returned boolean.
\<close>

partial_function (option) Is_loop ::
  "heap \<Rightarrow> bool \<Rightarrow> error \<Rightarrow> error \<Rightarrow> (pval + bool) option" where
  "Is_loop h isComparable err target =
     (if isComparable \<and> go_eq err target = None
      then Some (Inl (runtime_error ''comparing uncomparable type''))
      else if isComparable \<and> go_eq err target = Some True then Some (Inr True)
      else if custom_Is err target then Some (Inr True)
      else if Unwrap h err = ENil then Some (Inr False)
      else Is_loop h isComparable (Unwrap h err) target)"

declare Is_loop.simps [code]

definition Is :: "heap \<Rightarrow> error \<Rightarrow> error \<Rightarrow> (pval + bool) option" where
  "Is h err target =
     (if target = ENil then Some (Inr (err = ENil))
      else Is_loop h (Comparable target) err target)"

subsection \<open>WithCause\<close>

text \<open>
  \<^verbatim>\<open>func (e *Error) WithCause(err error) *Error\<close>. The receiver is an address or nil;
  the result is the returned pointer and the store after the call. The recursive call
  is \<^verbatim>\<open>v.WithCause(e.next)\<close>: the receiver is the fresh \<open>v\<close>, the argument the old
  \<^verbatim>\<open>e.next\<close>. \<^verbatim>\<open>e.count\<close> is set from \<^verbatim>\<open>v.count\<close> as it is after that call.
\<close>

partial_function (option) WithCause ::
  "heap \<Rightarrow> nat option \<Rightarrow> error \<Rightarrow> (pval + nat option \<times> heap) option" where
  "WithCause h e err =
     (case e of
        None \<Rightarrow> (case CastOrWrap h err of (v, h1) \<Rightarrow> Some (Inr (Some v, h1)))
      | Some a \<Rightarrow>
          if err = ENil then Some (Inr (e, h))
          else Option.bind (Is h (EPtr e) err) (\<lambda>r.
            case r of
              Inl p \<Rightarrow> Some (Inl p)
            | Inr b \<Rightarrow>
                if b then Some (Inr (e, h))
                else (case CastOrWrap h err of (v, h1) \<Rightarrow>
                  (case next' (h1 ! a) of
                     None \<Rightarrow>
                       Some (Inr (e, h1[a := set_count (count (h1 ! v) + 1)
                                               (set_next (Some v) (h1 ! a))]))
                   | Some n \<Rightarrow>
                       Option.bind (WithCause h1 (Some v) (EPtr (Some n))) (\<lambda>r2.
                         case r2 of
                           Inl p \<Rightarrow> Some (Inl p)
                         | Inr (q, h2) \<Rightarrow>
                             Some (Inr (e, h2[a := set_count (count (h2 ! v) + 1)
                                                     (set_next q (h2 ! a))])))))))"

declare WithCause.simps [code]

text \<open>The struct that \<^verbatim>\<open>CastOrWrap\<close> stores at the address it returns.\<close>

definition coerced :: "heap \<Rightarrow> error \<Rightarrow> Error" where
  "coerced h err =
     (case dereference h err of
        EVal e \<Rightarrow> e
      | _ \<Rightarrow> MkError ''cast to eros.Error'' err None 1)"

subsection \<open>As\<close>

text \<open>
  \<^verbatim>\<open>reflect.TypeOf\<close> (nil for the nil interface), the method set of a type, and
  \<^verbatim>\<open>AssignableTo\<close> for a dynamic type: the types are identical, or the target type is
  an interface that the dynamic type implements.
\<close>

fun TypeOf :: "error \<Rightarrow> gotype option" where
  "TypeOf ENil = None"
| "TypeOf (EPtr p) = Some TyPtrError"
| "TypeOf (EVal s) = Some TyError"
| "TypeOf (EForeign f) = Some (TyForeign (ftype f))"

fun methods_of :: "gotype \<Rightarrow> string list" where
  "methods_of TyError = [''Count'', ''Error'']"
| "methods_of TyPtrError = [''Count'', ''Error'', ''Unwrap'', ''WithCause'']"
| "methods_of (TyForeign t) = ''Error'' # tmethods t"
| "methods_of (TyIface ms) = ms"
| "methods_of TyOther = []"

definition Implements :: "gotype \<Rightarrow> string list \<Rightarrow> bool" where
  "Implements t ms = (set ms \<subseteq> set (methods_of t))"

fun is_interface :: "gotype \<Rightarrow> bool" where
  "is_interface (TyIface ms) = True"
| "is_interface t = False"

definition AssignableTo :: "gotype \<Rightarrow> gotype \<Rightarrow> bool" where
  "AssignableTo t target = (t = target \<or> (is_interface target \<and> Implements t (methods_of target)))"

text \<open>
  The \<^verbatim>\<open>As(interface{}) bool\<close> method of a node, when its type has one: the value it
  stores in a slot of the given type, or \<open>None\<close> when it answers false.
\<close>

definition custom_As :: "error \<Rightarrow> gotype \<Rightarrow> error option" where
  "custom_As de ty =
     (case de of
        EForeign f \<Rightarrow> (if ''As'' \<in> set (tmethods (ftype f)) then map_of (fas f) ty else None)
      | _ \<Rightarrow> None)"

text \<open>
  The \<^verbatim>\<open>target interface{}\<close> argument of \<^verbatim>\<open>As\<close>: nil, a value that is no pointer, a nil
  pointer, or a pointer to a slot of the given type. The content of the slot is passed
  beside it and returned with the boolean.
\<close>

datatype target = TargetNil | TargetNonPtr | TargetNilPtr gotype | TargetPtr gotype

text \<open>
  The \<^verbatim>\<open>for err != nil\<close> loop of \<^verbatim>\<open>As\<close>; like the loop of \<^verbatim>\<open>Is\<close> it may not return.
  \<^verbatim>\<open>reflect.TypeOf(de)\<close> is the nil type only for a nil \<open>de\<close>, and calling its
  \<^verbatim>\<open>AssignableTo\<close> would be a run-time panic; \<^verbatim>\<open>dereference\<close> never yields nil for an
  error that is not nil (lemma \<open>TypeOf_dereference\<close>).
\<close>

partial_function (option) As_loop ::
  "heap \<Rightarrow> error \<Rightarrow> gotype \<Rightarrow> error \<Rightarrow> (pval + bool \<times> error) option" where
  "As_loop h err targetType slot =
     (if err = ENil then Some (Inr (False, slot))
      else if TypeOf (dereference h err) = None
      then Some (Inl (runtime_error ''invalid memory address or nil pointer dereference''))
      else if AssignableTo (the (TypeOf (dereference h err))) targetType
      then Some (Inr (True, dereference h err))
      else if custom_As (dereference h err) targetType \<noteq> None
      then Some (Inr (True, the (custom_As (dereference h err) targetType)))
      else As_loop h (Unwrap h err) targetType slot)"

declare As_loop.simps [code]

definition As :: "heap \<Rightarrow> error \<Rightarrow> target \<Rightarrow> error \<Rightarrow> (pval + bool \<times> error) option" where
  "As h err target slot =
     (case target of
        TargetNil \<Rightarrow> Some (Inl (PStr ''errors: target cannot be nil''))
      | TargetNonPtr \<Rightarrow> Some (Inl (PStr ''errors: target must be a non-nil pointer''))
      | TargetNilPtr ty \<Rightarrow> Some (Inl (PStr ''errors: target must be a non-nil pointer''))
      | TargetPtr targetType \<Rightarrow>
          if \<not> is_interface targetType \<and> \<not> Implements targetType [''Error'']
          then Some (Inl (PStr ''errors: *target must be interface or implement error''))
          else As_loop h err targetType slot)"

text \<open>
  The chain of an error: the nodes reached by repeated \<^verbatim>\<open>Unwrap\<close> until nil.
  \<open>chain h err ns\<close> says that the chain of \<open>err\<close> ends and that \<open>ns\<close> lists its nodes.
  \<open>as_accepts\<close> is the test the loop of \<^verbatim>\<open>As\<close> makes at one node, with the value stored.
\<close>

fun chain :: "heap \<Rightarrow> error \<Rightarrow> error list \<Rightarrow> bool" where
  "chain h err [] = (err = ENil)"
| "chain h err (x # xs) = (err \<noteq> ENil \<and> x = err \<and> chain h (Unwrap h err) xs)"

definition as_accepts :: "heap \<Rightarrow> gotype \<Rightarrow> error \<Rightarrow> error option" where
  "as_accepts h ty node =
     (case TypeOf (dereference h node) of
        None \<Rightarrow> None
      | Some t \<Rightarrow> if AssignableTo t ty then Some (dereference h node)
                  else custom_As (dereference h node) ty)"

section \<open>Results, checks and the error handler\<close>

text \<open>
  \<^verbatim>\<open>type Result[T any] struct { Value T; Error error }\<close>
  \<^verbatim>\<open>type Handler func(res *Error)\<close>

  The state of a run: the store, the caller's own state (what a handler closure can
  read and write besides the store), and a log of the handler invocations with the
  pointer each one received. A handler returns the value it panics with, if it
  panics, and the state it leaves.
\<close>

record 'a Result =
  Value :: 'a
  Error :: error

record 'u world =
  heap :: "Error list"
  calls :: "nat option list"
  user :: 'u

type_synonym 'u Handler = "nat option \<Rightarrow> Error list \<Rightarrow> 'u \<Rightarrow> pval option \<times> Error list \<times> 'u"

definition call_handler :: "'u Handler \<Rightarrow> nat option \<Rightarrow> 'u world \<Rightarrow> pval option \<times> 'u world" where
  "call_handler handler p w =
     (case handler p (heap w) (user w) of
        (r, h', u') \<Rightarrow> (r, \<lparr>heap = h', calls = calls w @ [p], user = u'\<rparr>))"

text \<open>
  A call returns \<open>(Inr v, w)\<close>, or panics: \<open>(Inl p, w)\<close>; \<open>w\<close> is the state it leaves.

  \<^verbatim>\<open>func (r Result[T]) Check() T\<close>, \<^verbatim>\<open>func (r Result[T]) Handle(handler Handler) T\<close>,
  \<^verbatim>\<open>func Check(err error)\<close>, \<^verbatim>\<open>func CheckVal[T any](val T, err error) T\<close> and
  \<^verbatim>\<open>func Cast[T any](val T, err error) (res *Result[T])\<close>.
\<close>

definition Result_Check :: "'a Result \<Rightarrow> 'u world \<Rightarrow> (pval + 'a) \<times> 'u world" where
  "Result_Check r w =
     (if Error r \<noteq> ENil
      then (case CastOrWrap (heap w) (Error r) of
              (p, h1) \<Rightarrow> (Inl (PErr (EPtr (Some p))), w\<lparr>heap := h1\<rparr>))
      else (Inr (Value r), w))"


definition Check :: "error \<Rightarrow> 'u world \<Rightarrow> (pval + unit) \<times> 'u world" where
  "Check err w =
     (if err \<noteq> ENil
      then (case CastOrWrap (heap w) err of
              (p, h1) \<Rightarrow> (Inl (PErr (EPtr (Some p))), w\<lparr>heap := h1\<rparr>))
      else (Inr (), w))"

definition CheckVal :: "'a \<Rightarrow> error \<Rightarrow> 'u world \<Rightarrow> (pval + 'a) \<times> 'u world" where
  "CheckVal val err w = Result_Check \<lparr>Value = val, Error = err\<rparr> w"

definition Cast :: "'a \<Rightarrow> error \<Rightarrow> 'a Result" where
  "Cast val err = \<lparr>Value = val, Error = err\<rparr>"

subsection \<open>CheckNotNil\<close>

text \<open>
  \<^verbatim>\<open>CheckNotNil[T any](val T, msg string) T\<close> asks \<^verbatim>\<open>reflect.ValueOf(val).IsNil()\<close>.
  The kinds are those of \<^verbatim>\<open>reflect.Kind\<close>. A value passed for \<open>T\<close> is either of a type
  that is no interface, given by its kind and its referent (\<open>None\<close> for a nil
  reference), or of an interface type: nil, or the value it holds. \<^verbatim>\<open>reflect.ValueOf\<close>
  sees the value an interface holds, and the invalid \<^verbatim>\<open>Value\<close> for a nil interface.
  \<^verbatim>\<open>IsNil\<close> answers for the kinds chan, func, map, pointer, unsafe pointer, interface
  and slice, and panics with a \<^verbatim>\<open>*reflect.ValueError\<close> for every other kind.
\<close>

datatype kind =
    KInvalid | KBool | KInt | KInt8 | KInt16 | KInt32 | KInt64
  | KUint | KUint8 | KUint16 | KUint32 | KUint64 | KUintptr
  | KFloat32 | KFloat64 | KComplex64 | KComplex128
  | KArray | KChan | KFunc | KInterface | KMap | KPointer | KSlice | KString | KStruct
  | KUnsafePointer

datatype gvalue = GValue kind "nat option" | GIface "gvalue option"

fun ValueOf :: "gvalue \<Rightarrow> kind \<times> nat option" where
  "ValueOf (GValue k p) = (k, p)"
| "ValueOf (GIface None) = (KInvalid, None)"
| "ValueOf (GIface (Some v)) = ValueOf v"

fun nilable :: "kind \<Rightarrow> bool" where
  "nilable KChan = True"
| "nilable KFunc = True"
| "nilable KMap = True"
| "nilable KPointer = True"
| "nilable KUnsafePointer = True"
| "nilable KInterface = True"
| "nilable KSlice = True"
| "nilable k = False"

text \<open>The number \<^verbatim>\<open>reflect\<close> gives a kind; the \<^verbatim>\<open>*reflect.ValueError\<close> carries it.\<close>

fun kind_code :: "kind \<Rightarrow> nat" where
  "kind_code KInvalid = 0"
| "kind_code KBool = 1"
| "kind_code KInt = 2"
| "kind_code KInt8 = 3"
| "kind_code KInt16 = 4"
| "kind_code KInt32 = 5"
| "kind_code KInt64 = 6"
| "kind_code KUint = 7"
| "kind_code KUint8 = 8"
| "kind_code KUint16 = 9"
| "kind_code KUint32 = 10"
| "kind_code KUint64 = 11"
| "kind_code KUintptr = 12"
| "kind_code KFloat32 = 13"
| "kind_code KFloat64 = 14"
| "kind_code KComplex64 = 15"
| "kind_code KComplex128 = 16"
| "kind_code KArray = 17"
| "kind_code KChan = 18"
| "kind_code KFunc = 19"
| "kind_code KInterface = 20"
| "kind_code KMap = 21"
| "kind_code KPointer = 22"
| "kind_code KSlice = 23"
| "kind_code KString = 24"
| "kind_code KStruct = 25"
| "kind_code KUnsafePointer = 26"

definition ValueError :: "kind \<Rightarrow> pval" where
  "ValueError k =
     PErr (EForeign (Foreign (FType ''*reflect.ValueError'' True []) (kind_code k)
             None ENil [] []))"

fun IsNil :: "kind \<times> nat option \<Rightarrow> pval + bool" where
  "IsNil (k, p) = (if nilable k then Inr (p = None) else Inl (ValueError k))"

definition CheckNotNil :: "gvalue \<Rightarrow> string \<Rightarrow> 'u world \<Rightarrow> (pval + gvalue) \<times> 'u world" where
  "CheckNotNil val m w =
     (case IsNil (ValueOf val) of
        Inl p \<Rightarrow> (Inl p, w)
      | Inr b \<Rightarrow>
          if b then (case New (heap w) m of
                       (p, h1) \<Rightarrow> (Inl (PErr (EPtr (Some p))), w\<lparr>heap := h1\<rparr>))
          else (Inr val, w))"

subsection \<open>ErrorHandler\<close>

text \<open>
  \<^verbatim>\<open>ErrorHandler(handler)\<close> returns the function to defer. Its argument here is what
  \<^verbatim>\<open>recover()\<close> returns in it: \<open>None\<close> when the scope is not panicking, else the value
  of the panic. Its result is the panic that leaves it: \<open>None\<close> when it returns, the
  value of \<^verbatim>\<open>panic(r)\<close> when it panics again, or the handler's own panic.
\<close>

definition ErrorHandler :: "'u Handler \<Rightarrow> pval option \<Rightarrow> 'u world \<Rightarrow> pval option \<times> 'u world" where
  "ErrorHandler handler r w =
     (case r of
        None \<Rightarrow> (None, w)
      | Some (PErr e) \<Rightarrow>
          (case CastOrWrap (heap w) e of
             (p, h1) \<Rightarrow> call_handler handler (Some p) (w\<lparr>heap := h1\<rparr>))
      | Some pv \<Rightarrow> (Some pv, w))"

text \<open>
  \<^verbatim>\<open>defer cleanup()\<close> at the head of a scope: the body runs, then the deferred function,
  which sees the panic of the body, if any. When the deferred function returns after a
  panic of the body, the scope returns to its caller with no value of the body
  (\<open>Inr None\<close>); when it panics, the scope panics with that value.
\<close>

definition with_defer ::
  "(pval option \<Rightarrow> 'w \<Rightarrow> pval option \<times> 'w) \<Rightarrow> ('w \<Rightarrow> (pval + 'a) \<times> 'w) \<Rightarrow> 'w
     \<Rightarrow> (pval + 'a option) \<times> 'w" where
  "with_defer cleanup body w =
     (case body w of
        (Inr v, w1) \<Rightarrow>
          (case cleanup None w1 of
             (None, w2) \<Rightarrow> (Inr (Some v), w2)
           | (Some pv, w2) \<Rightarrow> (Inl pv, w2))
      | (Inl pv, w1) \<Rightarrow>
          (case cleanup (Some pv) w1 of
             (None, w2) \<Rightarrow> (Inr None, w2)
           | (Some pv', w2) \<Rightarrow> (Inl pv', w2)))"

section \<open>Example values\<close>

text \<open>
  Errors of other packages: a \<^verbatim>\<open>syscall.Errno\<close>, the \<^verbatim>\<open>*fs.PathError\<close> that \<^verbatim>\<open>os.Open\<close>
  returns around it, an \<^verbatim>\<open>errors.New\<close> value at a given address, and an error
  whose \<^verbatim>\<open>As\<close> method fills a slot of type \<^verbatim>\<open>Error\<close>.
\<close>

definition errno :: error where
  "errno = EForeign (Foreign (FType ''syscall.Errno'' True [''Is'']) 2 None ENil [] [])"

definition path_error :: error where
  "path_error =
     EForeign (Foreign (FType ''*fs.PathError'' True [''Unwrap'']) 1 None errno [] [])"

definition error_string :: "nat \<Rightarrow> error" where
  "error_string n = EForeign (Foreign (FType ''*errors.errorString'' True []) n None ENil [] [])"

definition as_error :: error where
  "as_error =
     EForeign (Foreign (FType ''custom.AsError'' True [''As'']) 0 None ENil []
                 [(TyError, EVal (MkError ''converted'' ENil None 0))])"

text \<open>An empty state with a counter as the caller's state, and a handler that counts.\<close>

definition world0 :: "nat world" where
  "world0 = \<lparr>heap = [], calls = [], user = 0\<rparr>"

definition counting :: "nat Handler" where
  "counting p h u = (None, h, Suc u)"





definition two_new :: heap where
  "two_new = [MkError ''a'' ENil None 0, MkError ''b'' ENil None 0]"

definition attached :: heap where
  "attached = [MkError ''a'' ENil (Some 2) 1, MkError ''b'' ENil None 0, MkError ''b'' ENil None 0]"

definition linked :: heap where
  "linked = attached @ [MkError ''c'' ENil None 0]"

definition linked_after :: heap where
  "linked_after =
     [MkError ''a'' ENil (Some 4) 2, MkError ''b'' ENil None 0, MkError ''b'' ENil None 0,
      MkError ''c'' ENil None 0, MkError ''c'' ENil (Some 5) 1, MkError ''b'' ENil None 0]"

text \<open>\<open>wrapped_path\<close> holds the result of \<^verbatim>\<open>Wrap(err, "open failed")\<close> for the path error.\<close>

definition wrapped_path :: heap where
  "wrapped_path = [MkError ''open failed'' path_error None 1]"

definition self_wrapped :: heap where
  "self_wrapped = [MkError ''a'' ENil None 0, MkError ''w'' (EPtr (Some 0)) None 1]"

definition cyclic :: heap where
  "cyclic = [MkError ''a'' ENil (Some 2) 2, MkError ''w'' (EPtr (Some 0)) None 1,
             MkError ''w'' (EPtr (Some 0)) None 1]"

section \<open>Basic facts\<close>

lemma CastOrWrap_alloc: "CastOrWrap h err = (length h, h @ [coerced h err])"
  by (simp add: CastOrWrap_def coerced_def Wrap_def split: error.splits)

lemma sel_set_next [simp]:
  "msg (set_next n s) = msg s" "cause (set_next n s) = cause s"
  "next' (set_next n s) = n" "count (set_next n s) = count s"
  by (case_tac [!] s) simp_all

lemma sel_set_count [simp]:
  "msg (set_count k s) = msg s" "cause (set_count k s) = cause s"
  "next' (set_count k s) = next' s" "count (set_count k s) = k"
  by (case_tac [!] s) simp_all

text \<open>Setting \<^verbatim>\<open>next\<close> and \<^verbatim>\<open>count\<close> of one struct changes no message and no cause.\<close>

lemma nth_relink:
  "msg (xs[a := set_count k (set_next n (xs ! a))] ! i) = msg (xs ! i)"
  "cause (xs[a := set_count k (set_next n (xs ! a))] ! i) = cause (xs ! i)"
proof -
  have "msg (xs[a := set_count k (set_next n (xs ! a))] ! i) = msg (xs ! i) \<and>
    cause (xs[a := set_count k (set_next n (xs ! a))] ! i) = cause (xs ! i)"
  proof (cases "a < length xs")
    case True
    then show ?thesis by (cases "i = a") simp_all
  next
    case False
    then have "length xs \<le> a" by simp
    then show ?thesis by (simp only: list_update_beyond simp_thms)
  qed
  then show "msg (xs[a := set_count k (set_next n (xs ! a))] ! i) = msg (xs ! i)"
    and "cause (xs[a := set_count k (set_next n (xs ! a))] ! i) = cause (xs ! i)"
    by simp_all
qed

subsection \<open>The branches of WithCause\<close>

lemma WithCause_nil_receiver:
  "WithCause h None err = Some (Inr (Some (length h), h @ [coerced h err]))"
  by (subst WithCause.simps) (simp add: CastOrWrap_alloc)

lemma WithCause_nil_cause: "WithCause h (Some a) ENil = Some (Inr (Some a, h))"
  by (subst WithCause.simps) simp

lemma WithCause_present:
  "Is h (EPtr (Some a)) err = Some (Inr True) \<Longrightarrow>
   WithCause h (Some a) err = Some (Inr (Some a, h))"
  by (subst WithCause.simps) simp

lemma WithCause_panic:
  "err \<noteq> ENil \<Longrightarrow> Is h (EPtr (Some a)) err = Some (Inl p) \<Longrightarrow>
   WithCause h (Some a) err = Some (Inl p)"
  by (subst WithCause.simps) simp

lemma WithCause_diverge:
  "err \<noteq> ENil \<Longrightarrow> Is h (EPtr (Some a)) err = None \<Longrightarrow>
   WithCause h (Some a) err = None"
  by (subst WithCause.simps) simp

lemma WithCause_first_link:
  "err \<noteq> ENil \<Longrightarrow> Is h (EPtr (Some a)) err = Some (Inr False) \<Longrightarrow>
   next' ((h @ [coerced h err]) ! a) = None \<Longrightarrow>
   WithCause h (Some a) err =
     Some (Inr (Some a, (h @ [coerced h err])[a :=
        set_count (count ((h @ [coerced h err]) ! length h) + 1)
          (set_next (Some (length h)) ((h @ [coerced h err]) ! a))]))"
  by (subst WithCause.simps) (simp add: CastOrWrap_alloc)

lemma WithCause_merge:
  "err \<noteq> ENil \<Longrightarrow> Is h (EPtr (Some a)) err = Some (Inr False) \<Longrightarrow>
   next' ((h @ [coerced h err]) ! a) = Some n \<Longrightarrow>
   WithCause h (Some a) err =
     Option.bind (WithCause (h @ [coerced h err]) (Some (length h)) (EPtr (Some n)))
       (\<lambda>r2. case r2 of
           Inl p \<Rightarrow> Some (Inl p)
         | Inr (q, h2) \<Rightarrow>
              Some (Inr (Some a, h2[a := set_count (count (h2 ! length h) + 1)
                                            (set_next q (h2 ! a))])))"
  by (subst WithCause.simps) (simp add: CastOrWrap_alloc)

text \<open>A call on a receiver that is not nil returns the receiver.\<close>

lemma WithCause_receiver:
  assumes "WithCause h (Some a) err = Some (Inr (q, h'))"
  shows "q = Some a"
proof (cases "err = ENil")
  case True
  with assms show ?thesis by (simp add: WithCause_nil_cause)
next
  case False
  show ?thesis
  proof (cases "Is h (EPtr (Some a)) err")
    case None
    with assms False show ?thesis by (simp add: WithCause_diverge)
  next
    case (Some r)
    show ?thesis
    proof (cases r)
      case (Inl p)
      with assms False Some show ?thesis by (simp add: WithCause_panic)
    next
      case (Inr b)
      show ?thesis
      proof (cases b)
        case True
        with assms Some Inr show ?thesis by (simp add: WithCause_present)
      next
        case nb: False
        show ?thesis
        proof (cases "next' ((h @ [coerced h err]) ! a)")
          case None
          from assms show ?thesis
            using WithCause_first_link[OF False _ None] Some Inr nb by simp
        next
          case (Some n)
          from assms show ?thesis
            using WithCause_merge[OF False _ Some] \<open>Is h (EPtr (Some a)) err = Some r\<close> Inr nb
            by (auto split: Option.bind_splits sum.splits)
        qed
      qed
    qed
  qed
qed

text \<open>
  A call never shrinks the store and never changes the message or the cause of a
  struct that was there: it only allocates, and sets \<^verbatim>\<open>next\<close> and \<^verbatim>\<open>count\<close>.
\<close>

lemma WithCause_frame:
  assumes run: "WithCause h e err = Some (Inr (q, h'))"
  shows "length h \<le> length h' \<and>
      (\<forall>i<length h. msg (h' ! i) = msg (h ! i) \<and> cause (h' ! i) = cause (h ! i))"
proof -
  define P :: "heap \<Rightarrow> nat option \<Rightarrow> error \<Rightarrow> pval + nat option \<times> heap \<Rightarrow> bool" where
    "P = (\<lambda>h e err y. \<forall>q h'. y = Inr (q, h') \<longrightarrow>
      length h \<le> length h' \<and>
      (\<forall>i<length h. msg (h' ! i) = msg (h ! i) \<and> cause (h' ! i) = cause (h ! i)))"
  have "P h e err (Inr (q, h'))"
  proof (rule WithCause.raw_induct[where P = P, OF _ run])
    fix wc h e err y
    assume IH: "\<And>h e err y. wc h e err = Some y \<Longrightarrow> P h e err y"
      and body: "(case e of
        None \<Rightarrow> (case CastOrWrap h err of (v, h1) \<Rightarrow> Some (Inr (Some v, h1)))
      | Some a \<Rightarrow>
          if err = ENil then Some (Inr (e, h))
          else Option.bind (Is h (EPtr e) err) (\<lambda>r.
            case r of
              Inl p \<Rightarrow> Some (Inl p)
            | Inr b \<Rightarrow>
                if b then Some (Inr (e, h))
                else (case CastOrWrap h err of (v, h1) \<Rightarrow>
                  (case next' (h1 ! a) of
                     None \<Rightarrow>
                       Some (Inr (e, h1[a := set_count (count (h1 ! v) + 1)
                                               (set_next (Some v) (h1 ! a))]))
                   | Some n \<Rightarrow>
                       Option.bind (wc h1 (Some v) (EPtr (Some n))) (\<lambda>r2.
                         case r2 of
                           Inl p \<Rightarrow> Some (Inl p)
                         | Inr (q, h2) \<Rightarrow>
                             Some (Inr (e, h2[a := set_count (count (h2 ! v) + 1)
                                                     (set_next q (h2 ! a))]))))))) = Some y"
    show "P h e err y"
      unfolding P_def
    proof (intro allI impI)
      fix q h' assume y: "y = Inr (q, h')"
      show "length h \<le> length h' \<and>
        (\<forall>i<length h. msg (h' ! i) = msg (h ! i) \<and> cause (h' ! i) = cause (h ! i))"
      proof (cases e)
        case None
        with body y show ?thesis
          by (auto simp add: CastOrWrap_alloc nth_append)
      next
        case (Some a)
        show ?thesis
        proof (cases "err = ENil")
          case True
          with body y Some show ?thesis by simp
        next
          case False
          with body y Some obtain b where isb: "Is h (EPtr (Some a)) err = Some (Inr b)"
            by (auto split: Option.bind_splits sum.splits)
          show ?thesis
          proof (cases b)
            case True
            with body y Some False isb show ?thesis by simp
          next
            case nb: False
            let ?v = "length h" and ?h1 = "h @ [coerced h err]"
            show ?thesis
            proof (cases "next' (?h1 ! a)")
              case None
              with body y Some False isb nb
              have h': "h' = ?h1[a := set_count (count (?h1 ! ?v) + 1) (set_next (Some ?v) (?h1 ! a))]"
                by (simp add: CastOrWrap_alloc)
              have "msg (h' ! i) = msg (?h1 ! i) \<and> cause (h' ! i) = cause (?h1 ! i)" for i
                unfolding h' by (simp only: nth_relink)
              moreover have "length h' = Suc (length h)" unfolding h' by simp
              ultimately show ?thesis by (simp add: nth_append)
            next
              case (Some n)
              with body y \<open>e = Some a\<close> False isb nb
              obtain q2 h2 where
                inner: "wc ?h1 (Some ?v) (EPtr (Some n)) = Some (Inr (q2, h2))"
                and h': "h' = h2[a := set_count (count (h2 ! ?v) + 1) (set_next q2 (h2 ! a))]"
                by (auto simp add: CastOrWrap_alloc split: Option.bind_splits sum.splits)
              from IH[OF inner] have
                len: "length ?h1 \<le> length h2"
                and pres: "\<forall>i<length ?h1. msg (h2 ! i) = msg (?h1 ! i) \<and> cause (h2 ! i) = cause (?h1 ! i)"
                by (auto simp add: P_def)
              have "msg (h2 ! i) = msg (h ! i) \<and> cause (h2 ! i) = cause (h ! i)"
                if "i < length h" for i
                using pres[rule_format, of i] that by (simp add: nth_append)
              moreover have "msg (h' ! i) = msg (h2 ! i) \<and> cause (h' ! i) = cause (h2 ! i)" for i
                unfolding h' by (simp only: nth_relink)
              moreover have "length h' = length h2" unfolding h' by simp
              ultimately show ?thesis using len by (auto simp add: nth_append)
            qed
          qed
        qed
      qed
    qed
  qed
  then show ?thesis by (simp add: P_def)
qed

text \<open>
  What a call that attaches a new cause leaves behind: the receiver's \<^verbatim>\<open>next\<close> is the
  fresh struct, which keeps the message and the cause of the coerced error, and the
  receiver's \<^verbatim>\<open>count\<close> is the fresh struct's \<^verbatim>\<open>count\<close> plus one.
\<close>

lemma WithCause_links:
  assumes run: "WithCause h (Some a) err = Some (Inr (q, h'))"
    and a: "a < length h" and err: "err \<noteq> ENil"
    and notin: "Is h (EPtr (Some a)) err = Some (Inr False)"
  shows "next' (h' ! a) = Some (length h) \<and> length h < length h' \<and>
    msg (h' ! length h) = msg (coerced h err) \<and>
    cause (h' ! length h) = cause (coerced h err) \<and>
    count (h' ! a) = count (h' ! length h) + 1 \<and>
    msg (h' ! a) = msg (h ! a) \<and> cause (h' ! a) = cause (h ! a)"
proof (cases "next' ((h @ [coerced h err]) ! a)")
  case None
  from run have h': "h' = (h @ [coerced h err])[a :=
        set_count (count ((h @ [coerced h err]) ! length h) + 1)
          (set_next (Some (length h)) ((h @ [coerced h err]) ! a))]"
    unfolding WithCause_first_link[OF err notin None] by simp
  show ?thesis unfolding h' using a by (simp add: nth_append)
next
  case (Some n)
  let ?h1 = "h @ [coerced h err]"
  from run obtain q2 h2 where
    inner: "WithCause ?h1 (Some (length h)) (EPtr (Some n)) = Some (Inr (q2, h2))"
    and h': "h' = h2[a := set_count (count (h2 ! length h) + 1) (set_next q2 (h2 ! a))]"
    unfolding WithCause_merge[OF err notin Some]
    by (auto split: Option.bind_splits sum.splits)
  have q2: "q2 = Some (length h)" using WithCause_receiver[OF inner] .
  from WithCause_frame[OF inner] have len: "Suc (length h) \<le> length h2"
    and pres: "\<And>i. i < Suc (length h) \<Longrightarrow>
       msg (h2 ! i) = msg (?h1 ! i) \<and> cause (h2 ! i) = cause (?h1 ! i)"
    by simp_all
  have a2: "a < length h2" and ne: "a \<noteq> length h" using a len by simp_all
  have 1: "next' (h' ! a) = Some (length h)" unfolding h' using a2 q2 by simp
  have 2: "length h < length h'" unfolding h' using len by simp
  have 3: "h' ! length h = h2 ! length h" unfolding h' using ne by simp
  have 4: "count (h' ! a) = count (h2 ! length h) + 1" unfolding h' using a2 by simp
  have 5: "msg (h' ! a) = msg (h2 ! a) \<and> cause (h' ! a) = cause (h2 ! a)"
    unfolding h' by (simp only: nth_relink)
  from pres[of a] a have 6: "msg (h2 ! a) = msg (h ! a) \<and> cause (h2 ! a) = cause (h ! a)"
    by (simp add: nth_append)
  from pres[of "length h"] have 7: "msg (h2 ! length h) = msg (coerced h err) \<and>
      cause (h2 ! length h) = cause (coerced h err)"
    by simp
  show ?thesis using 1 2 3 4 5 6 7 by simp
qed

subsection \<open>The loop of As\<close>

lemma TypeOf_dereference: "err \<noteq> ENil \<Longrightarrow> TypeOf (dereference h err) \<noteq> None"
  by (cases "(h, err)" rule: dereference.cases) (simp_all split: option.splits)

text \<open>On a chain that ends, the loop returns what the first accepting node decides.\<close>

lemma As_loop_chain:
  "chain h err ns \<Longrightarrow>
   As_loop h err ty slot =
     Some (Inr (case find (\<lambda>x. as_accepts h ty x \<noteq> None) ns of
                  None \<Rightarrow> (False, slot)
                | Some x \<Rightarrow> (True, the (as_accepts h ty x))))"
proof (induction ns arbitrary: err)
  case Nil
  then show ?case by (subst As_loop.simps) simp
next
  case (Cons x xs)
  then have ne: "err \<noteq> ENil" and x: "x = err" and rest: "chain h (Unwrap h err) xs"
    by simp_all
  from TypeOf_dereference[OF ne] obtain t where t: "TypeOf (dereference h err) = Some t"
    by blast
  show ?case
    by (subst As_loop.simps) (simp add: ne x t as_accepts_def Cons.IH[OF rest])
qed

text \<open>
  On the store \<open>cyclic\<close> the chain of the head never ends, and no node of it is of a
  foreign type: the loop does not return.
\<close>

lemma As_loop_cyclic:
  assumes run: "As_loop cyclic err (TyForeign ft) slot = Some r"
    and err: "err = EPtr (Some 0) \<or> err = EPtr (Some 2)"
  shows False
proof -
  define P :: "heap \<Rightarrow> error \<Rightarrow> gotype \<Rightarrow> error \<Rightarrow> pval + bool \<times> error \<Rightarrow> bool" where
    "P = (\<lambda>h err ty slot r.
       \<not> (h = cyclic \<and> ty = TyForeign ft \<and> (err = EPtr (Some 0) \<or> err = EPtr (Some 2))))"
  have "P cyclic err (TyForeign ft) slot r"
  proof (rule As_loop.raw_induct[where P = P, OF _ run])
    fix loop h err targetType slot r
    assume IH: "\<And>h err ty slot r. loop h err ty slot = Some r \<Longrightarrow> P h err ty slot r"
      and body: "(if err = ENil then Some (Inr (False, slot))
      else if TypeOf (dereference h err) = None
      then Some (Inl (runtime_error ''invalid memory address or nil pointer dereference''))
      else if AssignableTo (the (TypeOf (dereference h err))) targetType
      then Some (Inr (True, dereference h err))
      else if custom_As (dereference h err) targetType \<noteq> None
      then Some (Inr (True, the (custom_As (dereference h err) targetType)))
      else loop h (Unwrap h err) targetType slot) = Some r"
    show "P h err targetType slot r"
      unfolding P_def
    proof
      assume c: "h = cyclic \<and> targetType = TyForeign ft \<and>
        (err = EPtr (Some 0) \<or> err = EPtr (Some 2))"
      then consider "err = EPtr (Some 0)" | "err = EPtr (Some 2)" by blast
      then show False
      proof cases
        case 1
        with body c have "loop cyclic (EPtr (Some 2)) (TyForeign ft) slot = Some r"
          by (simp add: cyclic_def AssignableTo_def custom_As_def)
        from IH[OF this] show False by (simp add: P_def)
      next
        case 2
        with body c have "loop cyclic (EPtr (Some 0)) (TyForeign ft) slot = Some r"
          by (simp add: cyclic_def AssignableTo_def custom_As_def)
        from IH[OF this] show False by (simp add: P_def)
      qed
    qed
  qed
  with err show False by (simp add: P_def)
qed

section \<open>Properties of the package\<close>

subsection \<open>Is\<close>

text \<open>
  C1 (the code departs from the specification and from its own test). Specified: two distinct
  errors with equal representations, such as two results of \<^verbatim>\<open>New\<close> with one message,
  are identical for \<^verbatim>\<open>Is\<close>. The test \<^verbatim>\<open>TestIs\<close> asks the same of
  \<^verbatim>\<open>ComparedErrorInstance\<close> and \<^verbatim>\<open>NewErrorInstance\<close>. On the code the answer is false,
  for every message and every store: the two \<^verbatim>\<open>*Error\<close> are compared by address,
  \<^verbatim>\<open>*Error\<close> has no \<^verbatim>\<open>Is\<close> method, and a fresh error unwraps to nil.
\<close>

theorem Is_New_same_message:
  "(case New h m of (p1, h1) \<Rightarrow>
      (case New h1 m of (p2, h2) \<Rightarrow> Is h2 (EPtr (Some p1)) (EPtr (Some p2))))
   = Some (Inr False)"
  by (simp add: New_def Is_def Is_loop.simps custom_Is_def nth_append)

text \<open>The two instances of the test.\<close>

theorem Is_New_same_message_witness:
  "Is [MkError ''This is an eros Error'' ENil None 0, MkError ''This is an eros Error'' ENil None 0]
      (EPtr (Some 0)) (EPtr (Some 1))
   = Some (Inr False)"
  using Is_New_same_message[where h = "[]" and m = "''This is an eros Error''"]
  by (simp add: New_def)

subsection \<open>WithCause\<close>

text \<open>
  C7. \<^verbatim>\<open>WithCause\<close> with a nil cause, or with a cause that \<^verbatim>\<open>Is\<close> finds in the chain of
  the receiver, returns the receiver and leaves the store as it is, so neither the
  chain nor any \<^verbatim>\<open>Count\<close> changes. On a nil receiver it returns a pointer that is not
  nil, to a fresh struct: the coerced cause.
\<close>

theorem WithCause_idempotent:
  "WithCause h (Some a) ENil = Some (Inr (Some a, h)) \<and>
   (Is h (EPtr (Some a)) c = Some (Inr True) \<longrightarrow>
      WithCause h (Some a) c = Some (Inr (Some a, h))) \<and>
   WithCause h None err = Some (Inr (Some (length h), h @ [coerced h err]))"
  by (simp add: WithCause_nil_cause WithCause_present WithCause_nil_receiver)

text \<open>
  The store holds \<^verbatim>\<open>Wrap(err, "open failed")\<close> for the path error; the \<^verbatim>\<open>syscall.Errno\<close>
  is two steps down its chain: attaching it changes nothing. \<^verbatim>\<open>nil.WithCause\<close> of the
  path error wraps it.
\<close>

theorem WithCause_idempotent_witness:
  "Is wrapped_path (EPtr (Some 0)) errno = Some (Inr True) \<and>
   WithCause wrapped_path (Some 0) errno = Some (Inr (Some 0, wrapped_path)) \<and>
   WithCause wrapped_path (Some 0) ENil = Some (Inr (Some 0, wrapped_path)) \<and>
   WithCause wrapped_path None path_error =
     Some (Inr (Some 1, wrapped_path @ [MkError ''cast to eros.Error'' path_error None 1]))"
proof -
  have "Is wrapped_path (EPtr (Some 0)) errno = Some (Inr True)"
    by (simp add: wrapped_path_def path_error_def errno_def Is_def Is_loop.simps custom_Is_def)
  then show ?thesis
    using WithCause_idempotent[of wrapped_path 0 errno path_error]
    by (simp add: coerced_def path_error_def) (simp add: wrapped_path_def)
qed

text \<open>
  C2 (amended). For a receiver \<open>a\<close> that is not nil and has a next link \<open>n\<close>, and a cause
  that is not nil and that \<^verbatim>\<open>Is\<close> does not find in the chain of \<open>a\<close>: \<^verbatim>\<open>WithCause\<close>
  coerces the cause to a fresh struct at \<open>v\<close> and calls \<^verbatim>\<open>v.WithCause(a.next)\<close>. When
  that call returns, \<^verbatim>\<open>WithCause\<close> returns the receiver; the new link \<open>v\<close> is the
  receiver's next link, so it is the first one that \<^verbatim>\<open>Unwrap\<close> reaches; it keeps the
  message and cause of the coerced error; and the receiver's count is the count of \<open>v\<close>
  plus one. The link attached before is behind \<open>v\<close>: either \<^verbatim>\<open>Is\<close> finds it in the
  chain of \<open>v\<close> already, and \<open>v\<close> stays as coerced, or a copy of it is the next link
  of \<open>v\<close>.
\<close>

theorem WithCause_new_link_first:
  fixes h h2 :: heap and err :: error and a n :: nat and q :: "nat option"
  defines "v \<equiv> length h"
    and "h1 \<equiv> h @ [coerced h err]"
  defines "hf \<equiv> h2[a := set_count (count (h2 ! v) + 1) (set_next (Some v) (h2 ! a))]"
  assumes a: "a < length h" and nx: "next' (h ! a) = Some n" and n: "n < length h"
    and err: "err \<noteq> ENil"
    and notin: "Is h (EPtr (Some a)) err = Some (Inr False)"
    and inner: "WithCause h1 (Some v) (EPtr (Some n)) = Some (Inr (q, h2))"
  shows "WithCause h (Some a) err = Some (Inr (Some a, hf)) \<and>
      Unwrap hf (EPtr (Some a)) = EPtr (Some v) \<and>
      msg (hf ! v) = msg (coerced h err) \<and> cause (hf ! v) = cause (coerced h err) \<and>
      Count (hf ! a) = Count (hf ! v) + 1 \<and>
      msg (hf ! a) = msg (h ! a) \<and> cause (hf ! a) = cause (h ! a) \<and>
      (Is h1 (EPtr (Some v)) (EPtr (Some n)) = Some (Inr True) \<longrightarrow>
         hf ! v = coerced h err) \<and>
      (Is h1 (EPtr (Some v)) (EPtr (Some n)) = Some (Inr False) \<longrightarrow>
         Unwrap hf (EPtr (Some v)) = EPtr (Some (Suc v)) \<and>
         msg (hf ! Suc v) = msg (h ! n) \<and> cause (hf ! Suc v) = cause (h ! n))"
proof -
  have q: "q = Some v" using WithCause_receiver[OF inner] .
  have nx1: "next' ((h @ [coerced h err]) ! a) = Some n"
    using a nx by (simp add: nth_append)
  have run: "WithCause h (Some a) err = Some (Inr (Some a, hf))"
    unfolding WithCause_merge[OF err notin nx1] hf_def
    using inner q by (simp add: v_def h1_def)
  from WithCause_links[OF run a err notin]
  have L: "next' (hf ! a) = Some v" "msg (hf ! v) = msg (coerced h err)"
    "cause (hf ! v) = cause (coerced h err)" "count (hf ! a) = count (hf ! v) + 1"
    "msg (hf ! a) = msg (h ! a)" "cause (hf ! a) = cause (h ! a)"
    by (simp_all add: v_def)
  have ne: "a \<noteq> v" "a \<noteq> Suc v" using a by (simp_all add: v_def)
  have hfv: "hf ! v = h2 ! v" "hf ! Suc v = h2 ! Suc v"
    unfolding hf_def using ne by simp_all
  have T: "hf ! v = coerced h err"
    if "Is h1 (EPtr (Some v)) (EPtr (Some n)) = Some (Inr True)"
  proof -
    from inner have "h2 = h1" unfolding WithCause_present[OF that] by simp
    then show ?thesis using hfv by (simp add: h1_def v_def)
  qed
  have F: "Unwrap hf (EPtr (Some v)) = EPtr (Some (Suc v)) \<and>
         msg (hf ! Suc v) = msg (h ! n) \<and> cause (hf ! Suc v) = cause (h ! n)"
    if "Is h1 (EPtr (Some v)) (EPtr (Some n)) = Some (Inr False)"
  proof -
    have v1: "v < length h1" by (simp add: v_def h1_def)
    have c: "coerced h1 (EPtr (Some n)) = h ! n"
      using n by (simp add: coerced_def h1_def nth_append)
    from WithCause_links[OF inner v1 _ that]
    have "next' (h2 ! v) = Some (length h1)" "msg (h2 ! length h1) = msg (h ! n)"
      "cause (h2 ! length h1) = cause (h ! n)"
      by (simp_all add: c)
    moreover have "length h1 = Suc v" by (simp add: v_def h1_def)
    ultimately show ?thesis using hfv by simp
  qed
  show ?thesis
    using run L T F by (simp add: Count_def)
qed

text \<open>
  On \<open>linked\<close>: \<^verbatim>\<open>a.WithCause(c)\<close> makes a copy of \<open>c\<close> at address 4 and a copy of the
  old next link at address 5; the result is \<open>linked_after\<close>.
\<close>

theorem WithCause_new_link_first_witness:
  "Is linked (EPtr (Some 0)) (EPtr (Some 3)) = Some (Inr False) \<and>
   Is (linked @ [MkError ''c'' ENil None 0]) (EPtr (Some 4)) (EPtr (Some 2)) = Some (Inr False) \<and>
   WithCause linked (Some 0) (EPtr (Some 3)) = Some (Inr (Some 0, linked_after)) \<and>
   Unwrap linked_after (EPtr (Some 0)) = EPtr (Some 4) \<and>
   Count (linked_after ! 0) = Count (linked_after ! 4) + 1 \<and>
   Unwrap linked_after (EPtr (Some 4)) = EPtr (Some 5) \<and>
   msg (linked_after ! 5) = ''b''"
proof -
  define h2 where "h2 = [MkError ''a'' ENil (Some 2) 1, MkError ''b'' ENil None 0,
      MkError ''b'' ENil None 0, MkError ''c'' ENil None 0,
      MkError ''c'' ENil (Some 5) 1, MkError ''b'' ENil None 0]"
  have c: "coerced linked (EPtr (Some 3)) = MkError ''c'' ENil None 0"
    by (simp add: coerced_def linked_def attached_def)
  have 1: "Is linked (EPtr (Some 0)) (EPtr (Some 3)) = Some (Inr False)"
    by (simp add: linked_def attached_def Is_def Is_loop.simps custom_Is_def)
  have 2: "Is (linked @ [MkError ''c'' ENil None 0]) (EPtr (Some 4)) (EPtr (Some 2))
      = Some (Inr False)"
    by (simp add: linked_def attached_def Is_def Is_loop.simps custom_Is_def)
  have len: "length linked = 4" by (simp add: linked_def attached_def)
  have 3: "WithCause (linked @ [coerced linked (EPtr (Some 3))]) (Some (length linked))
      (EPtr (Some 2)) = Some (Inr (Some 4, h2))"
    unfolding c len
    by (simp add: WithCause.simps Is_def Is_loop.simps custom_Is_def CastOrWrap_alloc
        coerced_def linked_def attached_def h2_def)
  have hf: "h2[0 := set_count (count (h2 ! length linked) + 1)
      (set_next (Some (length linked)) (h2 ! 0))] = linked_after"
    by (simp add: h2_def linked_def attached_def linked_after_def)
  have "0 < length linked" "next' (linked ! 0) = Some 2" "2 < length linked"
    "EPtr (Some 3) \<noteq> ENil"
    by (simp_all add: linked_def attached_def)
  from WithCause_new_link_first[OF this 1 3] 1 2 show ?thesis
    unfolding hf c by (simp add: linked_after_def Count_def)
qed

text \<open>
  As specified, the links attached before would stay ahead of the new one.
  After \<^verbatim>\<open>a := New("a"); b := New("b"); a.WithCause(b); c := New("c")\<close> the chain of \<open>a\<close>
  is \<open>a\<close>, \<open>b\<close>. After \<^verbatim>\<open>a.WithCause(c)\<close> it is \<open>a\<close>, \<open>c\<close>, \<open>b\<close>: the new link comes
  first and the one attached before follows it.
\<close>

theorem WithCause_tail_counterexample:
  "WithCause two_new (Some 0) (EPtr (Some 1)) = Some (Inr (Some 0, attached)) \<and>
   New attached ''c'' = (3, linked) \<and>
   Is linked (EPtr (Some 0)) (EPtr (Some 3)) = Some (Inr False) \<and>
   Unwrap linked (EPtr (Some 0)) = EPtr (Some 2) \<and> msg (linked ! 2) = ''b'' \<and>
   Unwrap linked (EPtr (Some 2)) = ENil \<and>
   WithCause linked (Some 0) (EPtr (Some 3)) = Some (Inr (Some 0, linked_after)) \<and>
   Unwrap linked_after (EPtr (Some 0)) = EPtr (Some 4) \<and> msg (linked_after ! 4) = ''c'' \<and>
   Unwrap linked_after (EPtr (Some 4)) = EPtr (Some 5) \<and> msg (linked_after ! 5) = ''b'' \<and>
   Unwrap linked_after (EPtr (Some 5)) = ENil"
  by (simp add: WithCause.simps Is_def Is_loop.simps custom_Is_def CastOrWrap_alloc New_def
      coerced_def two_new_def attached_def linked_def linked_after_def)




subsection \<open>As\<close>

text \<open>
  C8 (amended). With a valid slot (a pointer that is not nil, to a type that is an
  interface or implements \<^verbatim>\<open>error\<close>) and an error whose chain ends, with nodes \<open>ns\<close>:
  \<^verbatim>\<open>As\<close> returns; it returns true iff some node of the chain is accepted, that is,
  after \<^verbatim>\<open>dereference\<close> it is assignable to the type of the slot or has an \<^verbatim>\<open>As\<close>
  method that accepts the slot; the slot then holds what the first accepted node puts
  there; and when it returns false the slot is as it was. A target that is nil, no
  pointer, a nil pointer, or a pointer to a type that is neither an interface nor
  implements \<^verbatim>\<open>error\<close>, is a panic, whatever the error.
\<close>

theorem As_on_finite_chain:
  assumes ch: "chain h err ns"
    and valid: "is_interface ty \<or> Implements ty [''Error'']"
  shows "\<exists>b s. As h err (TargetPtr ty) slot = Some (Inr (b, s)) \<and>
      (b \<longleftrightarrow> (\<exists>x \<in> set ns. as_accepts h ty x \<noteq> None)) \<and>
      (b \<longrightarrow> (\<exists>x. find (\<lambda>x. as_accepts h ty x \<noteq> None) ns = Some x \<and>
                  as_accepts h ty x = Some s)) \<and>
      (\<not> b \<longrightarrow> s = slot) \<and>
      As h err TargetNil slot = Some (Inl (PStr ''errors: target cannot be nil'')) \<and>
      As h err TargetNonPtr slot =
        Some (Inl (PStr ''errors: target must be a non-nil pointer'')) \<and>
      As h err (TargetNilPtr ty') slot =
        Some (Inl (PStr ''errors: target must be a non-nil pointer'')) \<and>
      (\<not> is_interface ty' \<and> \<not> Implements ty' [''Error''] \<longrightarrow>
         As h err (TargetPtr ty') slot =
           Some (Inl (PStr ''errors: *target must be interface or implement error'')))"
proof (cases "find (\<lambda>x. as_accepts h ty x \<noteq> None) ns")
  case None
  then have no: "\<not> (\<exists>x \<in> set ns. as_accepts h ty x \<noteq> None)"
    by (simp add: find_None_iff)
  have "As_loop h err ty slot = Some (Inr (False, slot))"
    using As_loop_chain[OF ch, of ty slot] unfolding None by (simp only: option.case)
  with valid have "As h err (TargetPtr ty) slot = Some (Inr (False, slot))"
    by (auto simp add: As_def)
  with no show ?thesis
    by (intro exI[of _ False] exI[of _ slot]) (simp add: As_def)
next
  case (Some x)
  then have yes: "\<exists>x \<in> set ns. as_accepts h ty x \<noteq> None"
    by (auto simp add: find_Some_iff)
  from Some obtain s where s: "as_accepts h ty x = Some s"
    by (auto simp add: find_Some_iff)
  have "As_loop h err ty slot = Some (Inr (True, s))"
    using As_loop_chain[OF ch, of ty slot] s unfolding Some
    by (simp only: option.case option.sel)
  with valid have "As h err (TargetPtr ty) slot = Some (Inr (True, s))"
    by (auto simp add: As_def)
  with yes Some s show ?thesis
    by (intro exI[of _ True] exI[of _ s]) (simp add: As_def)
qed

text \<open>
  The chain of \<^verbatim>\<open>Wrap(err, "open failed")\<close> for the path error has three nodes. A slot
  of type \<^verbatim>\<open>syscall.Errno\<close> receives the last one; a slot of type
  \<^verbatim>\<open>*errors.errorString\<close> is left as it was.
\<close>

theorem As_on_finite_chain_witness:
  "chain wrapped_path (EPtr (Some 0)) [EPtr (Some 0), path_error, errno] \<and>
   As wrapped_path (EPtr (Some 0))
     (TargetPtr (TyForeign (FType ''syscall.Errno'' True [''Is'']))) ENil =
     Some (Inr (True, errno)) \<and>
   As wrapped_path (EPtr (Some 0))
     (TargetPtr (TyForeign (FType ''*errors.errorString'' True []))) (error_string 7) =
     Some (Inr (False, error_string 7)) \<and>
   As wrapped_path (EPtr (Some 0)) TargetNil ENil =
     Some (Inl (PStr ''errors: target cannot be nil'')) \<and>
   As wrapped_path (EPtr (Some 0)) (TargetPtr TyOther) ENil =
     Some (Inl (PStr ''errors: *target must be interface or implement error''))"
proof -
  let ?ns = "[EPtr (Some 0), path_error, errno]"
  let ?errno = "TyForeign (FType ''syscall.Errno'' True [''Is''])"
  let ?str = "TyForeign (FType ''*errors.errorString'' True [])"
  have ch: "chain wrapped_path (EPtr (Some 0)) ?ns"
    by (simp add: wrapped_path_def path_error_def errno_def)
  have v1: "is_interface ?errno \<or> Implements ?errno [''Error'']"
    and v2: "is_interface ?str \<or> Implements ?str [''Error'']"
    and v3: "\<not> is_interface TyOther \<and> \<not> Implements TyOther [''Error'']"
    by (simp_all add: Implements_def)
  have a1: "as_accepts wrapped_path ?errno (EPtr (Some 0)) = None"
    "as_accepts wrapped_path ?errno path_error = None"
    "as_accepts wrapped_path ?errno errno = Some errno"
    by (simp_all add: as_accepts_def AssignableTo_def custom_As_def Implements_def
        wrapped_path_def path_error_def errno_def)
  have a2: "as_accepts wrapped_path ?str (EPtr (Some 0)) = None"
    "as_accepts wrapped_path ?str path_error = None"
    "as_accepts wrapped_path ?str errno = None"
    by (simp_all add: as_accepts_def AssignableTo_def custom_As_def Implements_def
        wrapped_path_def path_error_def errno_def)
  from As_on_finite_chain[OF ch v1, of ENil TyOther]
  have r1: "As wrapped_path (EPtr (Some 0)) (TargetPtr ?errno) ENil = Some (Inr (True, errno))"
    and r3: "As wrapped_path (EPtr (Some 0)) TargetNil ENil =
      Some (Inl (PStr ''errors: target cannot be nil''))"
    and r4: "As wrapped_path (EPtr (Some 0)) (TargetPtr TyOther) ENil =
      Some (Inl (PStr ''errors: *target must be interface or implement error''))"
    using v3 by (auto simp add: a1)
  from As_on_finite_chain[OF ch v2, of "error_string 7" TyOther]
  have r2: "As wrapped_path (EPtr (Some 0)) (TargetPtr ?str) (error_string 7) =
      Some (Inr (False, error_string 7))"
    by (auto simp add: a2)
  from ch r1 r2 r3 r4 show ?thesis by blast
qed

text \<open>
  As specified, without the \<^verbatim>\<open>As\<close> method and for every chain, the property fails in two
  ways. An error whose \<^verbatim>\<open>As\<close> method accepts a
  slot of type \<^verbatim>\<open>Error\<close> makes \<^verbatim>\<open>As\<close> succeed though no node of the chain is
  assignable to \<^verbatim>\<open>Error\<close>. And after \<^verbatim>\<open>e := New("a"); e.WithCause(Wrap(e, "w"))\<close> the
  chain of \<open>e\<close> is a cycle; with a slot of the foreign type \<^verbatim>\<open>*fs.PathError\<close>, which no
  node of the cycle has, \<^verbatim>\<open>As\<close> does not return false: it does not return.
\<close>

theorem As_counterexample:
  "chain [] as_error [as_error] \<and>
   \<not> AssignableTo (the (TypeOf (dereference [] as_error))) TyError \<and>
   As [] as_error (TargetPtr TyError) (EVal (MkError [] ENil None 0)) =
     Some (Inr (True, EVal (MkError ''converted'' ENil None 0))) \<and>
   WithCause self_wrapped (Some 0) (EPtr (Some 1)) = Some (Inr (Some 0, cyclic)) \<and>
   As cyclic (EPtr (Some 0)) (TargetPtr (TyForeign (FType ''*fs.PathError'' True [''Unwrap''])))
      ENil = None"
proof -
  let ?pe = "TyForeign (FType ''*fs.PathError'' True [''Unwrap''])"
  have 1: "chain [] as_error [as_error]" by (simp add: as_error_def)
  have 2: "\<not> AssignableTo (the (TypeOf (dereference [] as_error))) TyError"
    by (simp add: as_error_def AssignableTo_def)
  have 3: "As [] as_error (TargetPtr TyError) (EVal (MkError [] ENil None 0)) =
     Some (Inr (True, EVal (MkError ''converted'' ENil None 0)))"
    by (simp add: As_def Implements_def As_loop.simps as_error_def AssignableTo_def
        custom_As_def)
  have 4: "WithCause self_wrapped (Some 0) (EPtr (Some 1)) = Some (Inr (Some 0, cyclic))"
    by (simp add: WithCause.simps Is_def Is_loop.simps custom_Is_def CastOrWrap_alloc
        coerced_def self_wrapped_def cyclic_def)
  have "As_loop cyclic (EPtr (Some 0)) ?pe ENil = None"
    using As_loop_cyclic[of "EPtr (Some 0)"]
    by (cases "As_loop cyclic (EPtr (Some 0)) ?pe ENil") auto
  then have 5: "As cyclic (EPtr (Some 0)) (TargetPtr ?pe) ENil = None"
    by (simp add: As_def Implements_def)
  from 1 2 3 4 5 show ?thesis by blast
qed

subsection \<open>Check and Handle\<close>

text \<open>
  C5. \<^verbatim>\<open>r.Check()\<close> returns the value of \<open>r\<close> and leaves the state as it is when the
  error of \<open>r\<close> is nil. When it is not nil the call panics with the pointer that
  \<^verbatim>\<open>CastOrWrap\<close> returns for that error, in the store \<^verbatim>\<open>CastOrWrap\<close> leaves, and it
  does not return. \<^verbatim>\<open>Check(err)\<close> does the same for an error alone: nothing when it is
  nil, the panic with \<^verbatim>\<open>CastOrWrap(err)\<close> when it is not.
\<close>

theorem Check_fail_fast:
  "(Error r = ENil \<longrightarrow> Result_Check r w = (Inr (Value r), w)) \<and>
   (Error r \<noteq> ENil \<longrightarrow>
      Result_Check r w =
        (Inl (PErr (EPtr (Some (fst (CastOrWrap (heap w) (Error r)))))),
         w\<lparr>heap := snd (CastOrWrap (heap w) (Error r))\<rparr>) \<and>
      (\<forall>v w'. Result_Check r w \<noteq> (Inr v, w'))) \<and>
   Check ENil w = (Inr (), w) \<and>
   (err \<noteq> ENil \<longrightarrow>
      Check err w =
        (Inl (PErr (EPtr (Some (fst (CastOrWrap (heap w) err))))),
         w\<lparr>heap := snd (CastOrWrap (heap w) err)\<rparr>) \<and>
      (\<forall>w'. Check err w \<noteq> (Inr (), w')))"
  by (simp add: Result_Check_def Check_def split: prod.splits)

text \<open>A result without an error, and the result of a failed \<^verbatim>\<open>os.Open\<close>.\<close>

theorem Check_fail_fast_witness:
  "Result_Check \<lparr>Value = (7::nat), Error = ENil\<rparr> world0 = (Inr 7, world0) \<and>
   Result_Check \<lparr>Value = (0::nat), Error = path_error\<rparr> world0 =
     (Inl (PErr (EPtr (Some 0))),
      world0\<lparr>heap := [MkError ''cast to eros.Error'' path_error None 1]\<rparr>) \<and>
   Check ENil world0 = (Inr (), world0) \<and>
   Check path_error world0 =
     (Inl (PErr (EPtr (Some 0))),
      world0\<lparr>heap := [MkError ''cast to eros.Error'' path_error None 1]\<rparr>)"
  using Check_fail_fast[of "\<lparr>Value = (7::nat), Error = ENil\<rparr>" world0 path_error]
    Check_fail_fast[of "\<lparr>Value = (0::nat), Error = path_error\<rparr>" world0 path_error]
  by (simp add: CastOrWrap_alloc coerced_def path_error_def world0_def)



subsection \<open>ErrorHandler\<close>

text \<open>
  C4. A scope that defers \<^verbatim>\<open>ErrorHandler(handler)()\<close> and whose body is \<^verbatim>\<open>r.Check()\<close>
  with an error that is not nil: the deferred function calls the handler once, with a
  pointer that is not nil, to a copy of the coerced error; when the handler returns,
  the scope returns to its caller without a panic, and a panic that leaves the scope
  can only be the handler's own. When the body panics with a value that is no error,
  the handler is not called and the scope panics with that same value, in the same
  state.
\<close>

theorem ErrorHandler_recovers:
  assumes "CastOrWrap (heap w) (Error r) = (p1, h1)"
    and "CastOrWrap h1 (EPtr (Some p1)) = (p2, h2)"
  shows "(Error r \<noteq> ENil \<longrightarrow>
       calls (snd (with_defer (ErrorHandler handler) (Result_Check r) w)) = calls w @ [Some p2] \<and>
       p2 < length h2 \<and> h2 ! p2 = coerced (heap w) (Error r) \<and>
       (handler (Some p2) h2 (user w) = (None, h', u') \<longrightarrow>
          with_defer (ErrorHandler handler) (Result_Check r) w =
            (Inr None, \<lparr>heap = h', calls = calls w @ [Some p2], user = u'\<rparr>)) \<and>
       (\<forall>pv. fst (with_defer (ErrorHandler handler) (Result_Check r) w) = Inl pv \<longrightarrow>
          fst (handler (Some p2) h2 (user w)) = Some pv)) \<and>
    ((\<forall>e. pv \<noteq> PErr e) \<and> body w = (Inl pv, w1) \<longrightarrow>
       with_defer (ErrorHandler handler) body w = (Inl pv, w1))"
proof -
  have "ErrorHandler handler (Some pv) w1 = (Some pv, w1)" if "\<forall>e. pv \<noteq> PErr e"
    using that by (cases pv) (simp_all add: ErrorHandler_def)
  then show ?thesis
    using assms
    by (auto simp add: with_defer_def ErrorHandler_def Result_Check_def call_handler_def
        CastOrWrap_alloc coerced_def nth_append split: prod.splits option.splits)
qed

text \<open>
  The failed \<^verbatim>\<open>os.Open\<close> under the counting handler, and a body that panics with the
  string that \<^verbatim>\<open>As\<close> panics with.
\<close>

theorem ErrorHandler_recovers_witness:
  "with_defer (ErrorHandler counting)
     (Result_Check \<lparr>Value = (5::nat), Error = path_error\<rparr>) world0 =
     (Inr None,
      \<lparr>heap = [MkError ''cast to eros.Error'' path_error None 1,
               MkError ''cast to eros.Error'' path_error None 1],
       calls = [Some 1], user = 1\<rparr>) \<and>
   with_defer (ErrorHandler counting)
     (\<lambda>w. (Inl (PStr ''errors: target cannot be nil'') :: pval + nat, w)) world0 =
     (Inl (PStr ''errors: target cannot be nil''), world0)"
proof -
  let ?c = "MkError ''cast to eros.Error'' path_error None 1"
  let ?r = "\<lparr>Value = (5::nat), Error = path_error\<rparr>"
  have c1: "CastOrWrap (heap world0) (Error ?r) = (0, [?c])"
    by (simp add: CastOrWrap_alloc coerced_def path_error_def world0_def)
  have c2: "CastOrWrap [?c] (EPtr (Some 0)) = (1, [?c, ?c])"
    by (simp add: CastOrWrap_alloc coerced_def)
  have ne: "Error ?r \<noteq> ENil" by (simp add: path_error_def)
  have hd: "counting (Some 1) [?c, ?c] (user world0) = (None, [?c, ?c], 1)"
    by (simp add: counting_def world0_def)
  have pv: "\<forall>e. PStr ''errors: target cannot be nil'' \<noteq> PErr e" by simp
  note t = ErrorHandler_recovers[OF c1 c2, of counting "[?c, ?c]" 1
      "PStr ''errors: target cannot be nil''"
      "\<lambda>w. (Inl (PStr ''errors: target cannot be nil''), w)" world0]
  from t ne hd
  have A: "with_defer (ErrorHandler counting) (Result_Check ?r) world0 =
      (Inr None, \<lparr>heap = [?c, ?c], calls = calls world0 @ [Some 1], user = 1\<rparr>)"
    by blast
  from t pv
  have B: "with_defer (ErrorHandler counting)
      (\<lambda>w. (Inl (PStr ''errors: target cannot be nil'') :: pval + nat, w)) world0 =
      (Inl (PStr ''errors: target cannot be nil''), world0)"
    by blast
  have C: "calls world0 @ [Some 1] = [Some 1]" by (simp add: world0_def)
  from A[unfolded C] B show ?thesis by blast
qed

subsection \<open>CheckNotNil\<close>



text \<open>
  C10. For a value whose kind is not one of those (an int, a struct, and also the nil
  interface, which \<^verbatim>\<open>reflect\<close> sees as the invalid value): \<^verbatim>\<open>IsNil\<close> panics, so
  \<^verbatim>\<open>CheckNotNil\<close> does not return the value. It panics with a \<^verbatim>\<open>*reflect.ValueError\<close>,
  which is no \<^verbatim>\<open>*Error\<close>, and no error with the message is made: the store is as it
  was.
\<close>

theorem CheckNotNil_value_kind:
  assumes "\<not> nilable (fst (ValueOf v))"
  shows "CheckNotNil v m w = (Inl (ValueError (fst (ValueOf v))), w) \<and>
     CheckNotNil v m w \<noteq> (Inr v, w) \<and>
     (\<forall>p. ValueError (fst (ValueOf v)) \<noteq> PErr (EPtr p))"
  using assms by (cases "ValueOf v") (simp add: CheckNotNil_def ValueError_def)

text \<open>An int, and a nil value of an interface type.\<close>

theorem CheckNotNil_value_kind_witness:
  "\<not> nilable (fst (ValueOf (GValue KInt (Some 5)))) \<and>
   CheckNotNil (GValue KInt (Some 5)) ''m'' world0 = (Inl (ValueError KInt), world0) \<and>
   CheckNotNil (GIface None) ''m'' world0 = (Inl (ValueError KInvalid), world0)"
  using CheckNotNil_value_kind[of "GValue KInt (Some 5)" "''m''" world0]
    CheckNotNil_value_kind[of "GIface None" "''m''" world0]
  by simp

end
